theory Spec2Isabelle
  imports Complex_Main "HOL-Library.Product_Lexorder" "HOL-Library.List_Lexorder"
    "HOL-Library.Char_ord" "HOL-Library.Multiset" "HOL-Library.Log_Nat"
begin

section \<open>Tables\<close>

text \<open>
  The functions of \<^verbatim>\<open>python_task_1.py\<close> and \<^verbatim>\<open>python_task_2.py\<close> work on pandas
  data frames. A frame is an ordered list of named columns; a column carries its dtype.
  A missing value (NaN, NaT) is \<open>None\<close>. The numbers of a frame, and the distances that
  \<^verbatim>\<open>find_ids_within_ten_percentage_threshold\<close> compares, are float64 values, and the
  arithmetic on them rounds as the machine does. The matrices and the edge tables of
  \<^verbatim>\<open>generate_car_matrix\<close>, \<^verbatim>\<open>calculate_distance_matrix\<close>, \<^verbatim>\<open>unroll_distance_matrix\<close>
  and \<^verbatim>\<open>calculate_time_based_toll_rates\<close> are lists of typed rows.
\<close>

datatype error = KeyError | ValueError | TypeError

record time_of_day =
  hour :: nat
  minute :: nat
  second :: nat
  microsecond :: nat

text \<open>A timestamp: the proleptic Gregorian ordinal of its date (day 1 is Monday
  0001-01-01, as \<^verbatim>\<open>date.toordinal\<close>) and its time of day.\<close>

record datetime =
  ordinal :: int
  clock :: time_of_day

text \<open>A float64 value other than NaN: a real number or one of the two infinities, in the
  order of the number line. The finite floats are among the values \<open>Finite x\<close>; what is
  proved for every real \<open>x\<close> holds for them. The two zeros are not told apart.\<close>

datatype float64 = Finite real | PosInf | NegInf

instantiation float64 :: linorder
begin

fun less_eq_float64 :: "float64 \<Rightarrow> float64 \<Rightarrow> bool" where
  "less_eq_float64 (Finite a) (Finite b) \<longleftrightarrow> a \<le> b"
| "less_eq_float64 NegInf _ \<longleftrightarrow> True"
| "less_eq_float64 _ PosInf \<longleftrightarrow> True"
| "less_eq_float64 PosInf _ \<longleftrightarrow> False"
| "less_eq_float64 _ NegInf \<longleftrightarrow> False"

definition less_float64 :: "float64 \<Rightarrow> float64 \<Rightarrow> bool" where
  "less_float64 a b \<longleftrightarrow> a \<le> b \<and> \<not> b \<le> a"

instance
proof
  fix x y z :: float64
  show "(x < y) = (x \<le> y \<and> \<not> y \<le> x)" by (rule less_float64_def)
  show "x \<le> x" by (cases x) auto
  show "x \<le> y \<Longrightarrow> y \<le> z \<Longrightarrow> x \<le> z" by (cases x; cases y; cases z) auto
  show "x \<le> y \<Longrightarrow> y \<le> x \<Longrightarrow> x = y" by (cases x; cases y) auto
  show "x \<le> y \<or> y \<le> x" by (cases x; cases y) auto
qed

end











datatype column =
    Float "float64 option list"
  | Object "string option list"
  | Category "string list" "string option list"
  | Datetime "datetime option list"
  | Time "time_of_day option list"

type_synonym frame = "(string \<times> column) list"

text \<open>\<^verbatim>\<open>df[name]\<close>: the column, or KeyError.\<close>

definition getitem :: "frame \<Rightarrow> string \<Rightarrow> error + column" where
  "getitem df name = (case map_of df name of None \<Rightarrow> Inl KeyError | Some c \<Rightarrow> Inr c)"

text \<open>\<^verbatim>\<open>df[name] = col\<close>: an existing column is replaced where it stands, a new one is
  appended.\<close>

fun setitem :: "frame \<Rightarrow> string \<Rightarrow> column \<Rightarrow> frame" where
  "setitem [] name col = [(name, col)]"
| "setitem ((n, c) # df) name col =
     (if n = name then (n, col) # df else (n, c) # setitem df name col)"

section \<open>get_type_count\<close>

text \<open>\<^verbatim>\<open>pd.cut(x, bins=[-inf, 15, 25, inf], labels=['low', 'medium', 'high'], right=False)\<close>:
  the intervals are closed on the left and open on the right, so that the last one,
  from 25 up to infinity, does not hold infinity itself; a value in no interval, and NaN,
  gets NaN.\<close>

definition labels :: "string list" where
  "labels = [''low'', ''medium'', ''high'']"

definition cut_value :: "float64 \<Rightarrow> string option" where
  "cut_value x =
     (if x < Finite 15 then Some ''low''
      else if x < Finite 25 then Some ''medium''
      else if x < PosInf then Some ''high''
      else None)"

definition cut :: "column \<Rightarrow> error + column" where
  "cut c = (case c of
      Float xs \<Rightarrow> Inr (Category labels (map (\<lambda>x. Option.bind x cut_value) xs))
    | _ \<Rightarrow> Inl TypeError)"

text \<open>\<^verbatim>\<open>Series.value_counts()\<close> of a categorical column: one entry for every category of
  the dtype, observed or not, missing values not counted, largest count first.\<close>

definition value_counts :: "column \<Rightarrow> error + (string \<times> nat) list" where
  "value_counts c = (case c of
      Category cats vs \<Rightarrow>
        Inr (rev (sort_key snd (rev (map (\<lambda>l. (l, length (filter (\<lambda>v. v = Some l) vs))) cats))))
    | _ \<Rightarrow> Inl TypeError)"

text \<open>The function returns the dictionary; the caller's frame is the first component,
  since line 34 assigns a column of it.\<close>

definition get_type_count :: "frame \<Rightarrow> error + (frame \<times> (string \<times> nat) list)" where
  "get_type_count df =
     (case getitem df ''car'' of Inl e \<Rightarrow> Inl e | Inr car \<Rightarrow>
     (case cut car of Inl e \<Rightarrow> Inl e | Inr car_type \<Rightarrow>
     (let df' = setitem df ''car_type'' car_type in
     (case getitem df' ''car_type'' of Inl e \<Rightarrow> Inl e | Inr ct \<Rightarrow>
     (case value_counts ct of Inl e \<Rightarrow> Inl e | Inr type_count \<Rightarrow>
        Inr (df', sort type_count))))))"


section \<open>calculate_toll_rate\<close>





section \<open>time_check\<close>

text \<open>\<^verbatim>\<open>series + ' '\<close> and \<^verbatim>\<open>series + series\<close> on strings; a missing operand gives a
  missing result.\<close>

definition add_str :: "column \<Rightarrow> string \<Rightarrow> error + column" where
  "add_str c s = (case c of
      Object xs \<Rightarrow> Inr (Object (map (map_option (\<lambda>x. x @ s)) xs))
    | _ \<Rightarrow> Inl TypeError)"

fun concat_cell :: "string option \<times> string option \<Rightarrow> string option" where
  "concat_cell (Some x, Some y) = Some (x @ y)"
| "concat_cell _ = None"

definition add_col :: "column \<Rightarrow> column \<Rightarrow> error + column" where
  "add_col c d = (case (c, d) of
      (Object xs, Object ys) \<Rightarrow> Inr (Object (map concat_cell (zip xs ys)))
    | _ \<Rightarrow> Inl TypeError)"

text \<open>\<^verbatim>\<open>pd.to_datetime(series, errors='coerce')\<close>. The parser of date strings belongs to
  pandas and is a parameter: it gives the timestamp read from a string, or nothing where the
  string does not parse (NaT).\<close>

definition to_datetime :: "(string \<Rightarrow> datetime option) \<Rightarrow> column \<Rightarrow> error + column" where
  "to_datetime parse c = (case c of
      Object xs \<Rightarrow> Inr (Datetime (map (\<lambda>x. case x of None \<Rightarrow> None | Some s \<Rightarrow> parse s) xs))
    | _ \<Rightarrow> Inl TypeError)"

definition week :: "string list" where
  "week = [''Monday'', ''Tuesday'', ''Wednesday'', ''Thursday'', ''Friday'', ''Saturday'',
           ''Sunday'']"

text \<open>The weekday of a date is \<^verbatim>\<open>(toordinal() + 6) % 7\<close>, Monday being 0.\<close>

definition weekday :: "int \<Rightarrow> nat" where
  "weekday d = nat ((d + 6) mod 7)"

definition day_name :: "datetime \<Rightarrow> string" where
  "day_name t = week ! weekday (ordinal t)"

definition dt_day_name :: "column \<Rightarrow> error + column" where
  "dt_day_name c = (case c of
      Datetime ts \<Rightarrow> Inr (Object (map (map_option day_name) ts))
    | _ \<Rightarrow> Inl TypeError)"

definition dt_time :: "column \<Rightarrow> error + column" where
  "dt_time c = (case c of
      Datetime ts \<Rightarrow> Inr (Time (map (map_option clock) ts))
    | _ \<Rightarrow> Inl TypeError)"

text \<open>\<^verbatim>\<open>pd.date_range('00:00:00', '23:59:59', freq='1S').time\<close>: one time of day for each
  second from midnight to 23:59:59.\<close>

definition time_of_second :: "nat \<Rightarrow> time_of_day" where
  "time_of_second k =
     \<lparr>hour = k div 3600, minute = k div 60 mod 60, second = k mod 60, microsecond = 0\<rparr>"

definition date_range_time :: "time_of_day list" where
  "date_range_time = map time_of_second [0..<86400]"

text \<open>Rows of a column selected by a boolean mask.\<close>

definition mask_list :: "bool list \<Rightarrow> 'a list \<Rightarrow> 'a list" where
  "mask_list keep xs = map snd (filter fst (zip keep xs))"

fun mask_column :: "bool list \<Rightarrow> column \<Rightarrow> column" where
  "mask_column keep (Float xs) = Float (mask_list keep xs)"
| "mask_column keep (Object xs) = Object (mask_list keep xs)"
| "mask_column keep (Category cats xs) = Category cats (mask_list keep xs)"
| "mask_column keep (Datetime xs) = Datetime (mask_list keep xs)"
| "mask_column keep (Time xs) = Time (mask_list keep xs)"

definition mask_frame :: "bool list \<Rightarrow> frame \<Rightarrow> frame" where
  "mask_frame keep df = map (\<lambda>(name, c). (name, mask_column keep c)) df"

text \<open>\<^verbatim>\<open>set(series) == set(values)\<close> for a column of strings and for a column of times. A
  missing entry is an element of the left set, and of no right set.\<close>

definition check_timestamp_completeness :: "frame \<Rightarrow> error + bool" where
  "check_timestamp_completeness grp =
     (case getitem grp ''start_day'' of Inl e \<Rightarrow> Inl e | Inr sd \<Rightarrow>
     (case sd of Object ds \<Rightarrow>
       (let days_present = (set ds = set (map Some week)) in
       (case getitem grp ''start_time'' of Inl e \<Rightarrow> Inl e | Inr st \<Rightarrow>
       (case st of Time ts \<Rightarrow>
         (let time_ranges_present = (set ts = set (map Some date_range_time)) in
          Inr (days_present \<and> time_ranges_present))
        | _ \<Rightarrow> Inl TypeError)))
      | _ \<Rightarrow> Inl TypeError))"

text \<open>\<^verbatim>\<open>df.groupby(['id', 'id_2'])\<close>: the keys are the pairs of identifiers of the rows, a
  row with a missing identifier belongs to no group, and the groups come in the order of
  their keys. Identifiers are numbers.\<close>

fun group_key :: "float64 option \<times> float64 option \<Rightarrow> (float64 \<times> float64) option" where
  "group_key (Some a, Some b) = Some (a, b)"
| "group_key _ = None"

definition group_keys ::
  "float64 option list \<Rightarrow> float64 option list \<Rightarrow> (float64 \<times> float64) list" where
  "group_keys xs ys = sort (remdups (List.map_filter group_key (zip xs ys)))"

text \<open>\<^verbatim>\<open>.apply(f)\<close>: one result for each group, the first error raised ends the call.\<close>

fun apply_groups ::
  "(frame \<Rightarrow> error + bool) \<Rightarrow> frame \<Rightarrow> (float64 \<times> float64) option list \<Rightarrow>
   (float64 \<times> float64) list \<Rightarrow> error + ((float64 \<times> float64) \<times> bool) list" where
  "apply_groups f df ks [] = Inr []"
| "apply_groups f df ks (k # rest) =
     (case f (mask_frame (map (\<lambda>x. x = Some k) ks) df) of Inl e \<Rightarrow> Inl e | Inr b \<Rightarrow>
     (case apply_groups f df ks rest of Inl e \<Rightarrow> Inl e | Inr bs \<Rightarrow> Inr ((k, b) # bs)))"

definition groupby_apply ::
  "frame \<Rightarrow> (frame \<Rightarrow> error + bool) \<Rightarrow> error + ((float64 \<times> float64) \<times> bool) list" where
  "groupby_apply df f =
     (case getitem df ''id'' of Inl e \<Rightarrow> Inl e | Inr c1 \<Rightarrow>
     (case getitem df ''id_2'' of Inl e \<Rightarrow> Inl e | Inr c2 \<Rightarrow>
     (case (c1, c2) of
        (Float xs, Float ys) \<Rightarrow>
          apply_groups f df (map group_key (zip xs ys)) (group_keys xs ys)
      | _ \<Rightarrow> Inl TypeError)))"

text \<open>\<^verbatim>\<open>time_check\<close> assigns four columns of the caller's frame (lines 105 to 109) and
  returns the series of one boolean for each key. The first component of the result is the
  caller's frame after the call.\<close>

definition timestamp_column ::
  "(string \<Rightarrow> datetime option) \<Rightarrow> frame \<Rightarrow> string \<Rightarrow> string \<Rightarrow> error + column" where
  "timestamp_column parse df day time =
     (case getitem df day of Inl e \<Rightarrow> Inl e | Inr d \<Rightarrow>
     (case add_str d '' '' of Inl e \<Rightarrow> Inl e | Inr ds \<Rightarrow>
     (case getitem df time of Inl e \<Rightarrow> Inl e | Inr t \<Rightarrow>
     (case add_col ds t of Inl e \<Rightarrow> Inl e | Inr s \<Rightarrow> to_datetime parse s))))"

definition time_check ::
  "(string \<Rightarrow> datetime option) \<Rightarrow> frame \<Rightarrow>
   error + (frame \<times> ((float64 \<times> float64) \<times> bool) list)" where
  "time_check parse df =
     (case timestamp_column parse df ''startDay'' ''startTime'' of Inl e \<Rightarrow> Inl e | Inr s \<Rightarrow>
     (let df1 = setitem df ''start_timestamp'' s in
     (case timestamp_column parse df1 ''endDay'' ''endTime'' of Inl e \<Rightarrow> Inl e | Inr t \<Rightarrow>
     (let df2 = setitem df1 ''end_timestamp'' t in
     (case getitem df2 ''start_timestamp'' of Inl e \<Rightarrow> Inl e | Inr s2 \<Rightarrow>
     (case dt_day_name s2 of Inl e \<Rightarrow> Inl e | Inr sd \<Rightarrow>
     (let df3 = setitem df2 ''start_day'' sd in
     (case getitem df3 ''start_timestamp'' of Inl e \<Rightarrow> Inl e | Inr s3 \<Rightarrow>
     (case dt_time s3 of Inl e \<Rightarrow> Inl e | Inr st \<Rightarrow>
     (let df4 = setitem df3 ''start_time'' st in
     (case groupby_apply df4 check_timestamp_completeness of Inl e \<Rightarrow> Inl e
      | Inr completeness_series \<Rightarrow> Inr (df4, completeness_series))))))))))))"

text \<open>Closed forms used to state what \<^verbatim>\<open>time_check\<close> computes: the timestamps parsed
  from a day column and a time column, the rows of the group of a key as a mask, and the
  two comparisons of \<^verbatim>\<open>check_timestamp_completeness\<close> on the masked columns.\<close>

definition start_stamps ::
  "(string \<Rightarrow> datetime option) \<Rightarrow> string option list \<Rightarrow> string option list \<Rightarrow> datetime option list" where
  "start_stamps parse ds ts =
     map (\<lambda>(d, t). case d of None \<Rightarrow> None
        | Some x \<Rightarrow> (case t of None \<Rightarrow> None | Some y \<Rightarrow> parse (x @ '' '' @ y))) (zip ds ts)"

definition group_mask ::
  "float64 option list \<Rightarrow> float64 option list \<Rightarrow> float64 \<times> float64 \<Rightarrow> bool list" where
  "group_mask xs ys k = map (\<lambda>x. x = Some k) (map group_key (zip xs ys))"

definition complete_group ::
  "bool list \<Rightarrow> datetime option list \<Rightarrow> bool" where
  "complete_group keep stamps \<longleftrightarrow>
     set (mask_list keep (map (map_option day_name) stamps)) = set (map Some week) \<and>
     set (mask_list keep (map (map_option clock) stamps)) = set (map Some date_range_time)"

text \<open>The vocabulary of the completeness claim: the rows of the group of a key, the seven
  day names, and the times of day that fall on a whole second.\<close>

definition group_rows ::
  "float64 option list \<Rightarrow> float64 option list \<Rightarrow> float64 \<times> float64 \<Rightarrow> nat set" where
  "group_rows xs ys k =
     {i. i < length xs \<and> i < length ys \<and> xs ! i = Some (fst k) \<and> ys ! i = Some (snd k)}"

definition full_week :: "string set" where
  "full_week = {''Monday'', ''Tuesday'', ''Wednesday'', ''Thursday'', ''Friday'', ''Saturday'',
     ''Sunday''}"

definition seconds_of_day :: "time_of_day set" where
  "seconds_of_day =
     {\<lparr>hour = h, minute = m, second = s, microsecond = 0\<rparr> | h m s. h < 24 \<and> m < 60 \<and> s < 60}"





section \<open>find_ids_within_ten_percentage_threshold\<close>

text \<open>A row of an edge table: the columns \<^verbatim>\<open>id_start\<close>, \<^verbatim>\<open>id_end\<close> and \<^verbatim>\<open>distance\<close>.\<close>

record ('k, 'd) edge =
  id_start :: 'k
  id_end :: 'k
  distance :: 'd

text \<open>A comparison of two floats is false when one of them is NaN.\<close>

definition float_le :: "float64 option \<Rightarrow> float64 option \<Rightarrow> bool" where
  "float_le x y =
     (case x of None \<Rightarrow> False | Some a \<Rightarrow> (case y of None \<Rightarrow> False | Some b \<Rightarrow> a \<le> b))"






section \<open>calculate_time_based_toll_rates\<close>

text \<open>A row of the result of \<^verbatim>\<open>calculate_time_based_toll_rates\<close>: the columns of an edge and
  the four columns of the window.\<close>

record ('k, 'd) window_row = "('k, 'd) edge" +
  start_day :: string
  start_time :: time_of_day
  end_day :: string
  end_time :: time_of_day

text \<open>\<^verbatim>\<open>time(h, m, s)\<close> of the module \<^verbatim>\<open>datetime\<close>.\<close>

definition time_hms :: "nat \<Rightarrow> nat \<Rightarrow> nat \<Rightarrow> time_of_day" where
  "time_hms h m s = \<lparr>hour = h, minute = m, second = s, microsecond = 0\<rparr>"

definition weekday_discounts :: "(time_of_day \<times> time_of_day \<times> real) list" where
  "weekday_discounts =
     [(time_hms 0 0 0, time_hms 10 0 0, 0.8),
      (time_hms 10 0 0, time_hms 18 0 0, 1.2),
      (time_hms 18 0 0, time_hms 23 59 59, 0.8)]"

definition weekend_discount :: real where
  "weekend_discount = 0.7"

text \<open>The windows of the day with index \<open>day\<close> (line 121).\<close>

definition windows :: "nat \<Rightarrow> (time_of_day \<times> time_of_day \<times> real) list" where
  "windows day =
     (if day < 5 then weekday_discounts
      else [(time_hms 0 0 0, time_hms 23 59 59, weekend_discount)])"

text \<open>\<^verbatim>\<open>datetime.combine(datetime.today(), t) + timedelta(days=day)\<close>, where \<open>today\<close> is the
  ordinal of the date on which the call is made.\<close>

definition combine :: "int \<Rightarrow> time_of_day \<Rightarrow> nat \<Rightarrow> datetime" where
  "combine today t day = \<lparr>ordinal = today + int day, clock = t\<rparr>"

text \<open>\<^verbatim>\<open>df.groupby(['id_start', 'id_end'])\<close>: the groups come in the order of their keys,
  each with its rows in the order of the table.\<close>

definition pair_key :: "('k, 'd, 'z) edge_scheme \<Rightarrow> 'k \<times> 'k" where
  "pair_key r = (id_start r, id_end r)"

definition groupby_pair :: "('k::linorder, 'd) edge list \<Rightarrow> ('k, 'd) edge list list" where
  "groupby_pair df =
     map (\<lambda>k. filter (\<lambda>r. pair_key r = k) df) (sort (remdups (map pair_key df)))"

text \<open>\<^verbatim>\<open>Series.mean()\<close>: the mean of no value is NaN.\<close>

definition mean :: "real list \<Rightarrow> real option" where
  "mean xs = (if xs = [] then None else Some (sum_list xs / real (length xs)))"

text \<open>The dictionary appended for one window of one day of one group (lines 122 to 133);
  \<^verbatim>\<open>strftime('%A')\<close> is the day name. A group has a first row.\<close>

definition window_row ::
  "int \<Rightarrow> ('k, real) edge list \<Rightarrow> nat \<Rightarrow> time_of_day \<times> time_of_day \<times> real \<Rightarrow>
   ('k, real option) window_row" where
  "window_row today group_df day w =
     (case w of (start_time', end_time', discount_factor) \<Rightarrow>
       (let start_datetime = combine today start_time' day;
            end_datetime = combine today end_time' day
        in \<lparr>id_start = id_start (hd group_df),
            id_end = id_end (hd group_df),
            distance = map_option (\<lambda>m. m * discount_factor) (mean (map distance group_df)),
            start_day = day_name start_datetime,
            start_time = clock start_datetime,
            end_day = day_name end_datetime,
            end_time = clock end_datetime\<rparr>))"

definition calculate_time_based_toll_rates ::
  "int \<Rightarrow> ('k::linorder, real) edge list \<Rightarrow> ('k, real option) window_row list" where
  "calculate_time_based_toll_rates today input_df =
     concat (map (\<lambda>group_df.
        concat (map (\<lambda>day. map (window_row today group_df day) (windows day)) [0..<7]))
       (groupby_pair input_df))"

section \<open>generate_car_matrix and unroll_distance_matrix\<close>

text \<open>A row of the table read by \<^verbatim>\<open>generate_car_matrix\<close>: the columns \<^verbatim>\<open>id_1\<close>, \<^verbatim>\<open>id_2\<close>
  and \<^verbatim>\<open>car\<close>.\<close>

record ('k, 'v) car_row =
  id_1 :: 'k
  id_2 :: 'k
  car :: 'v

text \<open>A data frame used as a matrix: the row labels, the column labels, and the value at a
  row label and a column label. The value function is read only at labels of the frame,
  through \<^verbatim>\<open>.at\<close>.\<close>

record ('k, 'c) matrix =
  index :: "'k list"
  columns :: "'k list"
  cell :: "'k \<Rightarrow> 'k \<Rightarrow> 'c"

definition axes :: "('k, 'c) matrix \<Rightarrow> 'k list \<times> 'k list" where
  "axes m = (index m, columns m)"

text \<open>\<^verbatim>\<open>df.at[a, b]\<close>: KeyError for a label that the frame does not have.\<close>

definition at_get :: "('k, 'c) matrix \<Rightarrow> 'k \<Rightarrow> 'k \<Rightarrow> error + 'c" where
  "at_get m a b =
     (if a \<in> set (index m) \<and> b \<in> set (columns m) then Inr (cell m a b) else Inl KeyError)"

text \<open>\<^verbatim>\<open>df.at[a, b] = v\<close>: a label that the frame does not have is appended to its axis,
  and the new cells other than \<open>(a, b)\<close> are NaN.\<close>

definition at_set :: "('k, 'v option) matrix \<Rightarrow> 'k \<Rightarrow> 'k \<Rightarrow> 'v \<Rightarrow> ('k, 'v option) matrix" where
  "at_set m a b v =
     \<lparr>index = (if a \<in> set (index m) then index m else index m @ [a]),
      columns = (if b \<in> set (columns m) then columns m else columns m @ [b]),
      cell = (\<lambda>x y. if x = a \<and> y = b then Some v
                     else if x \<in> set (index m) \<and> y \<in> set (columns m) then cell m x y
                     else None)\<rparr>"

text \<open>\<^verbatim>\<open>df.pivot(index='id_1', columns='id_2', values='car')\<close>: the sorted distinct labels
  on each axis, NaN where the table has no row, ValueError when a pair of labels occurs in
  two rows.\<close>

definition pivot :: "('k::linorder, 'v option) car_row list \<Rightarrow> error + ('k, 'v option) matrix" where
  "pivot df =
     (if \<not> distinct (map (\<lambda>r. (id_1 r, id_2 r)) df) then Inl ValueError
      else Inr \<lparr>index = sort (remdups (map id_1 df)),
                columns = sort (remdups (map id_2 df)),
                cell = (\<lambda>a b. case find (\<lambda>r. id_1 r = a \<and> id_2 r = b) df of
                                None \<Rightarrow> None | Some r \<Rightarrow> car r)\<rparr>)"

definition fillna :: "'v \<Rightarrow> ('k, 'v option) matrix \<Rightarrow> ('k, 'v option) matrix" where
  "fillna v m = m\<lparr>cell := (\<lambda>a b. case cell m a b of None \<Rightarrow> Some v | Some x \<Rightarrow> Some x)\<rparr>"

definition generate_car_matrix ::
  "('k::linorder, real option) car_row list \<Rightarrow> error + ('k, real option) matrix" where
  "generate_car_matrix df =
     (case pivot df of Inl e \<Rightarrow> Inl e | Inr m \<Rightarrow>
       (let car_matrix = fillna 0 m in
        Inr (fold (\<lambda>i cm. at_set cm i i 0) (index car_matrix) car_matrix)))"

text \<open>\<^verbatim>\<open>unroll_distance_matrix\<close>: the pairs of distinct row labels (line 39), then the cell
  of each pair (line 43). With no pair, \<^verbatim>\<open>apply\<close> on the empty frame returns a frame, and
  assigning a frame of two columns to the column \<^verbatim>\<open>distance\<close> raises ValueError.\<close>

definition pairs :: "('k, 'c) matrix \<Rightarrow> ('k \<times> 'k) list" where
  "pairs df = filter (\<lambda>(s, e). s \<noteq> e) (List.product (index df) (index df))"

fun lookup_pairs :: "('k, 'c) matrix \<Rightarrow> ('k \<times> 'k) list \<Rightarrow> error + ('k, 'c) edge list" where
  "lookup_pairs df [] = Inr []"
| "lookup_pairs df ((s, e) # ps) =
     (case at_get df s e of Inl err \<Rightarrow> Inl err | Inr v \<Rightarrow>
     (case lookup_pairs df ps of Inl err \<Rightarrow> Inl err | Inr rows \<Rightarrow>
        Inr (\<lparr>id_start = s, id_end = e, distance = v\<rparr> # rows)))"

definition unroll_distance_matrix :: "('k, 'c) matrix \<Rightarrow> error + ('k, 'c) edge list" where
  "unroll_distance_matrix df =
     (if pairs df = [] then Inl ValueError else lookup_pairs df (pairs df))"

text \<open>The unrolled table under the column names that \<^verbatim>\<open>generate_car_matrix\<close> reads.\<close>

definition as_car_rows :: "('k, 'v) edge list \<Rightarrow> ('k, 'v) car_row list" where
  "as_car_rows u = map (\<lambda>r. \<lparr>id_1 = id_start r, id_2 = id_end r, car = distance r\<rparr>) u"

text \<open>The cells of a matrix, row by row.\<close>

definition cells :: "('k, 'c) matrix \<Rightarrow> (('k \<times> 'k) \<times> 'c) list" where
  "cells m = concat (map (\<lambda>a. map (\<lambda>b. ((a, b), cell m a b)) (columns m)) (index m))"

text \<open>The value that the matrix holds for a pair of labels of the table after
  \<^verbatim>\<open>fillna(0)\<close>: the value of the row, 0 where the row or its value is missing.\<close>

definition filled :: "('k, real option) car_row list \<Rightarrow> 'k \<Rightarrow> 'k \<Rightarrow> real option" where
  "filled df a b =
     (case find (\<lambda>r. id_1 r = a \<and> id_2 r = b) df of
        None \<Rightarrow> Some 0
      | Some r \<Rightarrow> (case car r of None \<Rightarrow> Some 0 | Some c \<Rightarrow> Some c))"

text \<open>Building a matrix, unrolling it, and building a matrix again from the unrolled table
  under the column names \<^verbatim>\<open>id_1\<close>, \<^verbatim>\<open>id_2\<close>, \<^verbatim>\<open>car\<close>.\<close>

definition round_trip ::
  "('k::linorder, real option) car_row list \<Rightarrow> error + ('k, real option) matrix" where
  "round_trip df =
     (case generate_car_matrix df of Inl e \<Rightarrow> Inl e | Inr m \<Rightarrow>
     (case unroll_distance_matrix m of Inl e \<Rightarrow> Inl e | Inr u \<Rightarrow>
        generate_car_matrix (as_car_rows u)))"

section \<open>calculate_distance_matrix\<close>

text \<open>A distance: a number, or the infinity that numpy writes \<^verbatim>\<open>inf\<close>. The sum with
  infinity is infinity, and every distance is at most infinity.\<close>

datatype dist = Fin real | PInf

instantiation dist :: "{zero, plus, linorder}"
begin

definition zero_dist :: dist where
  "zero_dist = Fin 0"

fun plus_dist :: "dist \<Rightarrow> dist \<Rightarrow> dist" where
  "plus_dist (Fin a) (Fin b) = Fin (a + b)"
| "plus_dist PInf _ = PInf"
| "plus_dist _ PInf = PInf"

fun less_eq_dist :: "dist \<Rightarrow> dist \<Rightarrow> bool" where
  "less_eq_dist (Fin a) (Fin b) \<longleftrightarrow> a \<le> b"
| "less_eq_dist _ PInf \<longleftrightarrow> True"
| "less_eq_dist PInf (Fin _) \<longleftrightarrow> False"

definition less_dist :: "dist \<Rightarrow> dist \<Rightarrow> bool" where
  "less_dist a b \<longleftrightarrow> a \<le> b \<and> \<not> b \<le> a"

instance
proof
  fix x y z :: dist
  show "(x < y) = (x \<le> y \<and> \<not> y \<le> x)" by (rule less_dist_def)
  show "x \<le> x" by (cases x) auto
  show "x \<le> y \<Longrightarrow> y \<le> z \<Longrightarrow> x \<le> z" by (cases x; cases y; cases z) auto
  show "x \<le> y \<Longrightarrow> y \<le> x \<Longrightarrow> x = y" by (cases x; cases y) auto
  show "x \<le> y \<or> y \<le> x" by (cases x; cases y) auto
qed

end

instance dist :: comm_monoid_add
proof
  fix a b c :: dist
  show "a + b + c = a + (b + c)" by (cases a; cases b; cases c) auto
  show "a + b = b + a" by (cases a; cases b) auto
  show "0 + a = a" by (cases a) (auto simp: zero_dist_def)
qed

instance dist :: ordered_ab_semigroup_add
proof
  fix a b c :: dist
  show "a \<le> b \<Longrightarrow> c + a \<le> c + b" by (cases a; cases b; cases c) auto
qed













text \<open>The weight of a walk, given the weight of each step.\<close>

fun walk_weight :: "('n \<Rightarrow> 'n \<Rightarrow> dist) \<Rightarrow> 'n list \<Rightarrow> dist" where
  "walk_weight w [] = 0"
| "walk_weight w [x] = 0"
| "walk_weight w (x # y # zs) = w x y + walk_weight w (y # zs)"








section \<open>Frames: lookup after assignment\<close>

lemma map_of_setitem: "map_of (setitem df name col) = (map_of df)(name \<mapsto> col)"
  by (induction df) (auto simp: fun_eq_iff)

lemma getitem_setitem: "getitem (setitem df name col) name = Inr col"
  by (simp add: getitem_def map_of_setitem)

section \<open>get_type_count: the buckets and their counts\<close>

lemma less_float64_simps [simp]:
  "Finite a < Finite b \<longleftrightarrow> a < b"
  "Finite a < PosInf"
  "NegInf < Finite a"
  "NegInf < PosInf"
  "\<not> PosInf < x"
  "\<not> x < NegInf"
  by (auto simp: less_float64_def; cases x; simp)+

lemma cut_value_low:
  "Option.bind x cut_value = Some ''low'' \<longleftrightarrow> (\<exists>v. x = Some v \<and> v < Finite 15)"
proof (cases x)
  case None
  then show ?thesis by simp
next
  case (Some v)
  then show ?thesis by (cases v) (auto simp: cut_value_def)
qed

lemma cut_value_medium:
  "Option.bind x cut_value = Some ''medium'' \<longleftrightarrow>
     (\<exists>v. x = Some v \<and> Finite 15 \<le> v \<and> v < Finite 25)"
proof (cases x)
  case None
  then show ?thesis by simp
next
  case (Some v)
  then show ?thesis by (cases v) (auto simp: cut_value_def)
qed

lemma cut_value_high:
  "Option.bind x cut_value = Some ''high'' \<longleftrightarrow>
     (\<exists>v. x = Some v \<and> Finite 25 \<le> v \<and> v < PosInf)"
proof (cases x)
  case None
  then show ?thesis by simp
next
  case (Some v)
  then show ?thesis by (cases v) (auto simp: cut_value_def)
qed

lemma length_filter_map: "length (filter P (map f xs)) = length (filter (\<lambda>x. P (f x)) xs)"
  by (induction xs) auto

text \<open>Whatever order \<^verbatim>\<open>value_counts\<close> lists the three labels in, \<^verbatim>\<open>sorted\<close> puts them
  in the order high, low, medium: the labels differ, so the counts are never compared.\<close>

lemma sort_three:
  fixes h l m :: nat
  assumes "mset ys = {#(''low'', l), (''medium'', m), (''high'', h)#}"
  shows "sort ys = [(''high'', h), (''low'', l), (''medium'', m)]"
proof (rule properties_for_sort)
  show "mset [(''high'', h), (''low'', l), (''medium'', m)] = mset ys"
    using assms by simp
  show "sorted [(''high'', h), (''low'', l), (''medium'', m)]"
    by (simp add: less_eq_prod_def less_char_def)
qed

lemma get_type_count_eq:
  assumes "map_of df ''car'' = Some (Float xs)"
  shows "get_type_count df =
    Inr (setitem df ''car_type'' (Category labels (map (\<lambda>x. Option.bind x cut_value) xs)),
         [(''high'', length (filter (\<lambda>x. \<exists>v. x = Some v \<and> Finite 25 \<le> v \<and> v < PosInf) xs)),
          (''low'', length (filter (\<lambda>x. \<exists>v. x = Some v \<and> v < Finite 15) xs)),
          (''medium'',
             length (filter (\<lambda>x. \<exists>v. x = Some v \<and> Finite 15 \<le> v \<and> v < Finite 25) xs))])"
proof -
  let ?vs = "map (\<lambda>x. Option.bind x cut_value) xs"
  let ?n = "\<lambda>l. length (filter (\<lambda>v. v = Some l) ?vs)"
  let ?tc = "rev (sort_key snd (rev (map (\<lambda>l. (l, ?n l)) labels)))"
  have "mset ?tc = {#(''low'', ?n ''low''), (''medium'', ?n ''medium''), (''high'', ?n ''high'')#}"
    by (simp add: labels_def)
  then have "sort ?tc = [(''high'', ?n ''high''), (''low'', ?n ''low''), (''medium'', ?n ''medium'')]"
    by (rule sort_three)
  moreover have "?n ''high'' =
      length (filter (\<lambda>x. \<exists>v. x = Some v \<and> Finite 25 \<le> v \<and> v < PosInf) xs)"
    by (simp only: length_filter_map cut_value_high)
  moreover have "?n ''low'' = length (filter (\<lambda>x. \<exists>v. x = Some v \<and> v < Finite 15) xs)"
    by (simp only: length_filter_map cut_value_low)
  moreover have "?n ''medium'' =
      length (filter (\<lambda>x. \<exists>v. x = Some v \<and> Finite 15 \<le> v \<and> v < Finite 25) xs)"
    by (simp only: length_filter_map cut_value_medium)
  ultimately show ?thesis
    using assms
    by (simp add: get_type_count_def getitem_def cut_def value_counts_def map_of_setitem Let_def)
qed

text \<open>
  C8, as the specification states it, fails: positive infinity is a number and is at least
  25, yet \<^verbatim>\<open>pd.cut\<close> with \<^verbatim>\<open>right=False\<close> leaves it in no bin, the last bin being open at
  infinity. A \<^verbatim>\<open>car\<close> column holding only positive infinity gives the count 0 for high.
\<close>

theorem get_type_count_infinity:
  "Finite 25 \<le> PosInf \<and>
   get_type_count [(''car'', Float [Some PosInf])]
     = Inr ([(''car'', Float [Some PosInf]), (''car_type'', Category labels [None])],
            [(''high'', 0), (''low'', 0), (''medium'', 0)])"
  by code_simp

text \<open>
  C8, amended. For a frame whose \<^verbatim>\<open>car\<close> column is numeric, \<^verbatim>\<open>get_type_count\<close> returns the
  dictionary whose keys come in sorted label order (high, low, medium) and whose counts are
  the number of values below 15, negative infinity among them (low), from 15 up to but
  excluding 25 (medium), and from 25 up to but excluding positive infinity (high); a missing
  value and positive infinity are in no bucket. The values 5, 15, 25, 30 give low 1,
  medium 1, high 2.
\<close>

theorem get_type_count_buckets:
  assumes "map_of df ''car'' = Some (Float xs)"
  shows "\<exists>df'. get_type_count df = Inr (df',
         [(''high'', length (filter (\<lambda>x. \<exists>v. x = Some v \<and> Finite 25 \<le> v \<and> v < PosInf) xs)),
          (''low'', length (filter (\<lambda>x. \<exists>v. x = Some v \<and> v < Finite 15) xs)),
          (''medium'',
             length (filter (\<lambda>x. \<exists>v. x = Some v \<and> Finite 15 \<le> v \<and> v < Finite 25) xs))])"
  using get_type_count_eq [OF assms] by blast

theorem get_type_count_buckets_witness:
  "map_of [(''car'', Float [Some (Finite 5), Some (Finite 15), Some (Finite 25), Some (Finite 30)])]
      ''car''
     = Some (Float [Some (Finite 5), Some (Finite 15), Some (Finite 25), Some (Finite 30)]) \<and>
   (\<exists>df'. get_type_count
       [(''car'', Float [Some (Finite 5), Some (Finite 15), Some (Finite 25), Some (Finite 30)])]
     = Inr (df', [(''high'', 2), (''low'', 1), (''medium'', 1)]))"
  using get_type_count_buckets
    [of "[(''car'', Float [Some (Finite 5), Some (Finite 15), Some (Finite 25), Some (Finite 30)])]"
        "[Some (Finite 5), Some (Finite 15), Some (Finite 25), Some (Finite 30)]"]
  by (simp add: numeral_2_eq_2)

text \<open>
  C10. For a frame whose \<^verbatim>\<open>car\<close> column is numeric, the dictionary returned by
  \<^verbatim>\<open>get_type_count\<close> has exactly the three keys high, low and medium, and a bucket that no
  row falls into is listed with the count 0.
\<close>

theorem get_type_count_all_labels:
  assumes "map_of df ''car'' = Some (Float xs)"
  shows "\<exists>df' h l m. get_type_count df = Inr (df', [(''high'', h), (''low'', l), (''medium'', m)]) \<and>
     ((\<forall>v. Some v \<in> set xs \<longrightarrow> \<not> (Finite 25 \<le> v \<and> v < PosInf)) \<longrightarrow> h = 0) \<and>
     ((\<forall>v. Some v \<in> set xs \<longrightarrow> \<not> v < Finite 15) \<longrightarrow> l = 0) \<and>
     ((\<forall>v. Some v \<in> set xs \<longrightarrow> \<not> (Finite 15 \<le> v \<and> v < Finite 25)) \<longrightarrow> m = 0)"
  unfolding get_type_count_eq [OF assms] by (auto simp: filter_empty_conv)

theorem get_type_count_all_labels_witness:
  "map_of [(''car'', Float [Some (Finite 5)])] ''car'' = Some (Float [Some (Finite 5)]) \<and>
   (\<exists>df'. get_type_count [(''car'', Float [Some (Finite 5)])]
     = Inr (df', [(''high'', 0), (''low'', 1), (''medium'', 0)]))"
proof -
  have h: "map_of [(''car'', Float [Some (Finite 5)])] ''car'' = Some (Float [Some (Finite 5)])"
    by simp
  obtain df' h l m where r:
    "get_type_count [(''car'', Float [Some (Finite 5)])]
       = Inr (df', [(''high'', h), (''low'', l), (''medium'', m)])"
    using get_type_count_all_labels [OF h] by blast
  have "get_type_count [(''car'', Float [Some (Finite 5)])]
     = Inr ([(''car'', Float [Some (Finite 5)]), (''car_type'', Category labels [Some ''low''])],
        [(''high'', 0), (''low'', 1), (''medium'', 0)])"
    by code_simp
  with h show ?thesis by blast
qed

section \<open>The seconds of a day\<close>

lemma scale_sixty: "x * 60 + y = (q::nat) \<Longrightarrow> x * 3600 + y * 60 = q * 60"
  by arith

lemma mod_sixty: "s < 60 \<Longrightarrow> (x * 60 + s) mod 60 = (s::nat)"
  by simp

lemma div_sixty: "s < 60 \<Longrightarrow> (x * 60 + s) div 60 = (x::nat)"
  by simp

lemma time_of_second_inverse:
  "hour (time_of_second k) * 3600 + minute (time_of_second k) * 60 + second (time_of_second k) = k"
proof -
  have "k div 3600 = k div 60 div 60"
    using div_mult2_eq [of k 60 60] by simp
  moreover have "k div 60 div 60 * 60 + k div 60 mod 60 = k div 60"
    by (rule div_mult_mod_eq)
  ultimately have "k div 3600 * 3600 + k div 60 mod 60 * 60 = k div 60 * 60"
    using scale_sixty [of "k div 60 div 60" "k div 60 mod 60" "k div 60"] by simp
  moreover have "k div 60 * 60 + k mod 60 = k"
    by (rule div_mult_mod_eq)
  ultimately show ?thesis
    by (simp add: time_of_second_def)
qed

lemma time_of_second_hms:
  assumes "m < 60" "s < 60"
  shows "time_of_second (h * 3600 + m * 60 + s) =
    \<lparr>hour = h, minute = m, second = s, microsecond = 0\<rparr>"
proof -
  have e: "h * 3600 + m * 60 + s = (h * 60 + m) * 60 + s"
    by simp
  have d: "(h * 3600 + m * 60 + s) div 60 = h * 60 + m"
    unfolding e using assms(2) by (rule div_sixty)
  have a: "(h * 3600 + m * 60 + s) div 3600 = h"
    using div_mult2_eq [of "h * 3600 + m * 60 + s" 60 60] d assms by simp
  have b: "(h * 3600 + m * 60 + s) div 60 mod 60 = m"
    unfolding d using assms by simp
  have c: "(h * 3600 + m * 60 + s) mod 60 = s"
    unfolding e using assms(2) by (rule mod_sixty)
  show ?thesis
    unfolding time_of_second_def a b c by simp
qed

lemma set_date_range_time:
  "set date_range_time =
     {\<lparr>hour = h, minute = m, second = s, microsecond = 0\<rparr> | h m s. h < 24 \<and> m < 60 \<and> s < 60}"
  (is "?L = ?R")
proof
  show "?L \<subseteq> ?R"
  proof
    fix t assume "t \<in> ?L"
    then have "t \<in> time_of_second ` {0..<86400}"
      unfolding date_range_time_def set_map set_upt .
    then obtain k where k: "k < 86400" "t = time_of_second k"
      by auto
    have "k div 3600 < 24" using k(1) by simp
    moreover have "k div 60 mod 60 < 60" "k mod 60 < 60" by simp_all
    ultimately show "t \<in> ?R"
      unfolding k(2) time_of_second_def by blast
  qed
  show "?R \<subseteq> ?L"
  proof
    fix t assume "t \<in> ?R"
    then obtain h m s where t: "t = \<lparr>hour = h, minute = m, second = s, microsecond = 0\<rparr>"
      and b: "h < 24" "m < 60" "s < 60" by blast
    have "h * 3600 + m * 60 + s < 86400" using b by simp
    moreover have "t = time_of_second (h * 3600 + m * 60 + s)"
      using time_of_second_hms [OF b(2,3)] t by simp
    ultimately have "t \<in> time_of_second ` {0..<86400}"
      by simp
    then show "t \<in> ?L"
      unfolding date_range_time_def set_map set_upt .
  qed
qed

lemma distinct_date_range_time: "distinct date_range_time"
proof -
  have "inj time_of_second"
    by (rule inj_on_inverseI [where g = "\<lambda>t. hour t * 3600 + minute t * 60 + second t"])
      (rule time_of_second_inverse)
  then have "inj_on time_of_second (set [0..<86400])"
    by (rule inj_on_subset) simp
  then show ?thesis
    unfolding date_range_time_def distinct_map using distinct_upt by blast
qed

lemma card_date_range_time: "card (set date_range_time) = 86400"
proof -
  have "length date_range_time = 86400"
    unfolding date_range_time_def length_map length_upt by simp
  then show ?thesis
    using distinct_card [OF distinct_date_range_time] by simp
qed

section \<open>time_check: the result in closed form\<close>

lemma timestamp_column_eq:
  assumes "map_of df day = Some (Object ds)" "map_of df time = Some (Object ts)"
  shows "timestamp_column parse df day time = Inr (Datetime (start_stamps parse ds ts))"
proof -
  have "map (\<lambda>x. case x of None \<Rightarrow> None | Some s \<Rightarrow> parse s)
          (map concat_cell (zip (map (map_option (\<lambda>x. x @ '' '')) ds) ts))
        = start_stamps parse ds ts"
    unfolding start_stamps_def zip_map1 map_map
    by (rule map_cong) (auto split: option.splits)
  then show ?thesis
    using assms
    by (simp add: timestamp_column_def getitem_def add_str_def add_col_def to_datetime_def)
qed

lemma getitem_mask_frame:
  "getitem (mask_frame keep df) name =
     (case map_of df name of None \<Rightarrow> Inl KeyError | Some c \<Rightarrow> Inr (mask_column keep c))"
  unfolding getitem_def mask_frame_def map_of_map by (simp split: option.splits)

lemma check_timestamp_completeness_eq:
  assumes "map_of df ''start_day'' = Some (Object ds)" "map_of df ''start_time'' = Some (Time ts)"
  shows "check_timestamp_completeness (mask_frame keep df) =
     Inr (set (mask_list keep ds) = set (map Some week) \<and>
          set (mask_list keep ts) = set (map Some date_range_time))"
  using assms
  by (simp add: check_timestamp_completeness_def getitem_mask_frame Let_def del: set_map)

lemma apply_groups_eq:
  assumes "\<And>k. k \<in> set keys \<Longrightarrow> f (mask_frame (map (\<lambda>x. x = Some k) ks) df) = Inr (g k)"
  shows "apply_groups f df ks keys = Inr (map (\<lambda>k. (k, g k)) keys)"
  using assms by (induction keys) simp_all

lemma time_check_eq:
  assumes "map_of df ''id'' = Some (Float xs)" "map_of df ''id_2'' = Some (Float ys)"
    and "map_of df ''startDay'' = Some (Object sd)" "map_of df ''startTime'' = Some (Object st)"
    and "map_of df ''endDay'' = Some (Object ed)" "map_of df ''endTime'' = Some (Object et)"
  shows "time_check parse df =
     Inr (setitem (setitem (setitem (setitem df
            ''start_timestamp'' (Datetime (start_stamps parse sd st)))
            ''end_timestamp'' (Datetime (start_stamps parse ed et)))
            ''start_day'' (Object (map (map_option day_name) (start_stamps parse sd st))))
            ''start_time'' (Time (map (map_option clock) (start_stamps parse sd st))),
          map (\<lambda>k. (k, complete_group (group_mask xs ys k) (start_stamps parse sd st)))
            (group_keys xs ys))"
proof -
  let ?s = "start_stamps parse sd st"
  let ?df1 = "setitem df ''start_timestamp'' (Datetime ?s)"
  let ?df2 = "setitem ?df1 ''end_timestamp'' (Datetime (start_stamps parse ed et))"
  let ?df3 = "setitem ?df2 ''start_day'' (Object (map (map_option day_name) ?s))"
  let ?df4 = "setitem ?df3 ''start_time'' (Time (map (map_option clock) ?s))"
  have a: "timestamp_column parse df ''startDay'' ''startTime'' = Inr (Datetime ?s)"
    using assms(3,4) by (rule timestamp_column_eq)
  have b: "timestamp_column parse ?df1 ''endDay'' ''endTime''
      = Inr (Datetime (start_stamps parse ed et))"
    by (rule timestamp_column_eq) (simp_all add: map_of_setitem assms)
  have c: "getitem ?df2 ''start_timestamp'' = Inr (Datetime ?s)"
    by (simp add: getitem_def map_of_setitem)
  have d: "getitem ?df3 ''start_timestamp'' = Inr (Datetime ?s)"
    by (simp add: getitem_def map_of_setitem)
  have e: "map_of ?df4 ''start_day'' = Some (Object (map (map_option day_name) ?s))"
    "map_of ?df4 ''start_time'' = Some (Time (map (map_option clock) ?s))"
    "getitem ?df4 ''id'' = Inr (Float xs)" "getitem ?df4 ''id_2'' = Inr (Float ys)"
    by (simp_all add: getitem_def map_of_setitem assms)
  have "apply_groups check_timestamp_completeness ?df4 (map group_key (zip xs ys)) (group_keys xs ys)
      = Inr (map (\<lambda>k. (k, complete_group (group_mask xs ys k) ?s)) (group_keys xs ys))"
    by (rule apply_groups_eq)
      (simp only: check_timestamp_completeness_eq [OF e(1,2)] complete_group_def group_mask_def)
  then have f: "groupby_apply ?df4 check_timestamp_completeness
      = Inr (map (\<lambda>k. (k, complete_group (group_mask xs ys k) ?s)) (group_keys xs ys))"
    by (simp only: groupby_apply_def e sum.case column.case prod.case)
  show ?thesis
    by (simp only: time_check_def a b c d f Let_def sum.case dt_day_name_def dt_time_def column.case)
qed

section \<open>time_check: groups, day names and seconds\<close>

lemma set_mask_list:
  "set (mask_list keep xs) = {xs ! i | i. i < length keep \<and> i < length xs \<and> keep ! i}"
  unfolding mask_list_def by (auto simp: set_zip image_iff) force

lemma group_key_Some: "group_key p = Some k \<longleftrightarrow> fst p = Some (fst k) \<and> snd p = Some (snd k)"
  by (cases p; cases "fst p"; cases "snd p"; cases k) auto

lemma group_mask_nth:
  assumes "i < length xs" "i < length ys"
  shows "group_mask xs ys k ! i \<longleftrightarrow> i \<in> group_rows xs ys k"
  using assms by (simp add: group_mask_def group_rows_def group_key_Some)

lemma length_group_mask: "length (group_mask xs ys k) = min (length xs) (length ys)"
  by (simp add: group_mask_def)

lemma set_group_mask_list:
  assumes "length zs = length xs" "length ys = length xs"
  shows "set (mask_list (group_mask xs ys k) zs) = (\<lambda>i. zs ! i) ` group_rows xs ys k"
proof -
  have "set (mask_list (group_mask xs ys k) zs)
      = {zs ! i | i. i < length xs \<and> group_mask xs ys k ! i}"
    unfolding set_mask_list length_group_mask using assms by auto
  also have "\<dots> = {zs ! i | i. i \<in> group_rows xs ys k}"
    using group_mask_nth [of _ xs ys k] assms by (auto simp: group_rows_def)
  finally show ?thesis by auto
qed

lemma set_map_filter_list: "set (List.map_filter f xs) = {y. \<exists>x \<in> set xs. f x = Some y}"
  by (induction xs) (auto split: option.splits)

lemma set_group_keys: "set (group_keys xs ys) = {k. group_rows xs ys k \<noteq> {}}"
proof -
  have "set (group_keys xs ys) = {k. \<exists>p \<in> set (zip xs ys). group_key p = Some k}"
    by (simp add: group_keys_def set_map_filter_list)
  also have "\<dots> = {k. group_rows xs ys k \<noteq> {}}"
    by (auto simp: set_zip group_key_Some group_rows_def) metis
  finally show ?thesis .
qed

lemma distinct_group_keys: "distinct (group_keys xs ys)"
  by (simp add: group_keys_def)

lemma sorted_group_keys: "sorted (group_keys xs ys)"
  by (simp add: group_keys_def)

lemma map_of_graph: "k \<in> set keys \<Longrightarrow> map_of (map (\<lambda>k. (k, g k)) keys) k = Some (g k)"
  by (induction keys) auto

lemma week_set: "set (map Some week) = Some ` full_week"
  by (auto simp: week_def full_week_def)

lemma seconds_set: "set (map Some date_range_time) = Some ` seconds_of_day"
  unfolding set_map set_date_range_time seconds_of_day_def ..

lemma complete_group_iff:
  assumes "length ys = length xs" "length stamps = length xs"
  shows "complete_group (group_mask xs ys k) stamps \<longleftrightarrow>
     (\<lambda>i. map_option day_name (stamps ! i)) ` group_rows xs ys k = Some ` full_week \<and>
     (\<lambda>i. map_option clock (stamps ! i)) ` group_rows xs ys k = Some ` seconds_of_day"
proof -
  have n: "(\<lambda>i. map f stamps ! i) ` group_rows xs ys k = (\<lambda>i. f (stamps ! i)) ` group_rows xs ys k"
    for f :: "datetime option \<Rightarrow> 'b"
    by (rule image_cong) (simp_all add: group_rows_def assms)
  have "set (mask_list (group_mask xs ys k) (map (map_option day_name) stamps))
      = (\<lambda>i. map_option day_name (stamps ! i)) ` group_rows xs ys k"
    using assms by (simp add: set_group_mask_list n)
  moreover have "set (mask_list (group_mask xs ys k) (map (map_option clock) stamps))
      = (\<lambda>i. map_option clock (stamps ! i)) ` group_rows xs ys k"
    using assms by (simp add: set_group_mask_list n)
  ultimately show ?thesis
    unfolding complete_group_def week_set seconds_set by simp
qed

lemma length_start_stamps: "length (start_stamps parse ds ts) = min (length ds) (length ts)"
  by (simp add: start_stamps_def)

text \<open>
  C2. For a frame with numeric \<^verbatim>\<open>id\<close> and \<^verbatim>\<open>id_2\<close> columns and string day and time
  columns, \<^verbatim>\<open>time_check\<close> returns one boolean for each distinct key \<open>(id, id_2)\<close>: it is
  true exactly when the day names of the group's parsed start timestamps are the seven days
  of the week and the times of day of those timestamps are the 86400 whole seconds from
  00:00:00 to 23:59:59. A group that misses one of these seconds is reported false.
\<close>

theorem time_check_complete_iff:
  assumes "map_of df ''id'' = Some (Float xs)" "map_of df ''id_2'' = Some (Float ys)"
    and "map_of df ''startDay'' = Some (Object sd)" "map_of df ''startTime'' = Some (Object st)"
    and "map_of df ''endDay'' = Some (Object ed)" "map_of df ''endTime'' = Some (Object et)"
    and "length ys = length xs" "length sd = length xs" "length st = length xs"
  shows "\<exists>df' series. time_check parse df = Inr (df', series) \<and>
     distinct (map fst series) \<and> fst ` set series = {k. group_rows xs ys k \<noteq> {}} \<and>
     (\<forall>k. group_rows xs ys k \<noteq> {} \<longrightarrow>
        map_of series k = Some
          ((\<lambda>i. map_option day_name (start_stamps parse sd st ! i)) ` group_rows xs ys k
              = Some ` full_week \<and>
           (\<lambda>i. map_option clock (start_stamps parse sd st ! i)) ` group_rows xs ys k
              = Some ` seconds_of_day)) \<and>
     (\<forall>k t. group_rows xs ys k \<noteq> {} \<and> t \<in> seconds_of_day \<and>
        Some t \<notin> (\<lambda>i. map_option clock (start_stamps parse sd st ! i)) ` group_rows xs ys k
        \<longrightarrow> map_of series k = Some False) \<and>
     card seconds_of_day = 86400"
proof -
  let ?s = "start_stamps parse sd st"
  let ?series = "map (\<lambda>k. (k, complete_group (group_mask xs ys k) ?s)) (group_keys xs ys)"
  have len: "length ?s = length xs"
    using assms(8,9) by (simp add: length_start_stamps)
  obtain df' where r: "time_check parse df = Inr (df', ?series)"
    using time_check_eq [OF assms(1-6)] by blast
  have m: "map fst ?series = group_keys xs ys"
    by (simp add: comp_def)
  have d: "distinct (map fst ?series)"
    unfolding m by (rule distinct_group_keys)
  have "fst ` set ?series = set (map fst ?series)" by (simp only: set_map)
  then have k: "fst ` set ?series = {k. group_rows xs ys k \<noteq> {}}"
    unfolding m set_group_keys .
  have v: "map_of ?series k = Some
          ((\<lambda>i. map_option day_name (?s ! i)) ` group_rows xs ys k = Some ` full_week \<and>
           (\<lambda>i. map_option clock (?s ! i)) ` group_rows xs ys k = Some ` seconds_of_day)"
    if "group_rows xs ys k \<noteq> {}" for k
  proof -
    have "k \<in> set (group_keys xs ys)" using that by (simp add: set_group_keys)
    then show ?thesis
      by (simp only: map_of_graph complete_group_iff [OF assms(7) len])
  qed
  have w: "map_of ?series k = Some False"
    if "group_rows xs ys k \<noteq> {}" "t \<in> seconds_of_day"
      "Some t \<notin> (\<lambda>i. map_option clock (?s ! i)) ` group_rows xs ys k" for k t
  proof -
    have "(\<lambda>i. map_option clock (?s ! i)) ` group_rows xs ys k \<noteq> Some ` seconds_of_day"
      using that(2,3) by blast
    then show ?thesis using v [OF that(1)] by simp
  qed
  have c: "card seconds_of_day = 86400"
    using card_date_range_time unfolding set_date_range_time seconds_of_day_def .
  show ?thesis
    using r d k v w c by blast
qed

theorem time_check_complete_iff_witness:
  "map_of [(''id'', Float [Some (Finite 1)]), (''id_2'', Float [Some (Finite 2)]),
      (''startDay'', Object [Some ''Monday'']), (''startTime'', Object [Some ''00:00:00'']),
      (''endDay'', Object [Some ''Monday'']), (''endTime'', Object [Some ''00:00:09''])] ''id''
     = Some (Float [Some (Finite 1)]) \<and>
   length [Some (Finite 2)] = length [Some (Finite 1)] \<and>
   (\<exists>df' series.
      time_check (\<lambda>s. if s = ''Monday 00:00:00''
          then Some \<lparr>ordinal = 1, clock = \<lparr>hour = 0, minute = 0, second = 0, microsecond = 0\<rparr>\<rparr>
          else None)
        [(''id'', Float [Some (Finite 1)]), (''id_2'', Float [Some (Finite 2)]),
         (''startDay'', Object [Some ''Monday'']), (''startTime'', Object [Some ''00:00:00'']),
         (''endDay'', Object [Some ''Monday'']), (''endTime'', Object [Some ''00:00:09''])]
        = Inr (df', series) \<and>
      map_of series (Finite 1, Finite 2) = Some False)"
proof -
  let ?df = "[(''id'', Float [Some (Finite 1)]), (''id_2'', Float [Some (Finite 2)]),
      (''startDay'', Object [Some ''Monday'']), (''startTime'', Object [Some ''00:00:00'']),
      (''endDay'', Object [Some ''Monday'']), (''endTime'', Object [Some ''00:00:09''])]"
  let ?parse = "\<lambda>s. if s = ''Monday 00:00:00''
          then Some \<lparr>ordinal = 1, clock = \<lparr>hour = 0, minute = 0, second = 0, microsecond = 0\<rparr>\<rparr>
          else None"
  let ?t = "\<lparr>hour = 0, minute = 0, second = 1, microsecond = 0\<rparr>"
  have h: "map_of ?df ''id'' = Some (Float [Some (Finite 1)])" "map_of ?df ''id_2'' = Some (Float [Some (Finite 2)])"
    "map_of ?df ''startDay'' = Some (Object [Some ''Monday''])"
    "map_of ?df ''startTime'' = Some (Object [Some ''00:00:00''])"
    "map_of ?df ''endDay'' = Some (Object [Some ''Monday''])"
    "map_of ?df ''endTime'' = Some (Object [Some ''00:00:09''])"
    "length [Some (Finite 2)] = length [Some (Finite 1)]"
    "length [Some ''Monday''] = length [Some (Finite 1)]"
    "length [Some ''00:00:00''] = length [Some (Finite 1)]"
    by simp_all
  have g: "group_rows [Some (Finite 1)] [Some (Finite 2)] (Finite 1, Finite 2) = {0}"
    by (auto simp: group_rows_def)
  have t: "?t \<in> seconds_of_day"
    unfolding seconds_of_day_def by simp
  have n: "Some ?t \<notin> (\<lambda>i. map_option clock
      (start_stamps ?parse [Some ''Monday''] [Some ''00:00:00''] ! i)) ` group_rows [Some (Finite 1)] [Some (Finite 2)] (Finite 1, Finite 2)"
    unfolding g by (simp add: start_stamps_def)
  obtain df' series where r: "time_check ?parse ?df = Inr (df', series)"
    and w: "\<forall>k t. group_rows [Some (Finite 1)] [Some (Finite 2)] k \<noteq> {} \<and> t \<in> seconds_of_day \<and>
        Some t \<notin> (\<lambda>i. map_option clock
          (start_stamps ?parse [Some ''Monday''] [Some ''00:00:00''] ! i)) ` group_rows [Some (Finite 1)] [Some (Finite 2)] k
        \<longrightarrow> map_of series k = Some False"
    using time_check_complete_iff [OF h, of ?parse] by blast
  have "map_of series (Finite 1, Finite 2) = Some False"
    using w g t n by blast
  with r h show ?thesis by blast
qed

section \<open>The caller's frame after a call\<close>










section \<open>find_ids_within_ten_percentage_threshold: the band around the reference average\<close>





lemma float_le_nan [simp]: "\<not> float_le None x" "\<not> float_le x None"
  by (cases x; simp add: float_le_def)+











section \<open>calculate_time_based_toll_rates: seventeen rows, named from the day of the call\<close>

lemma days_of_week: "[0..<7] = [0, 1, 2, 3, 4, 5, 6]"
  by code_simp

lemma length_group_rows:
  "length (concat (map (\<lambda>day. map (window_row today group_df day) (windows day)) [0..<7])) = 17"
  unfolding days_of_week by (simp add: windows_def weekday_discounts_def)

lemma length_calculate_time_based_toll_rates:
  "length (calculate_time_based_toll_rates today input_df)
     = 17 * length (remdups (map pair_key input_df))"
proof -
  have "length (calculate_time_based_toll_rates today input_df)
      = sum_list (map (\<lambda>g. 17) (groupby_pair input_df))"
    unfolding calculate_time_based_toll_rates_def
    by (subst length_concat) (simp only: map_map comp_def length_group_rows)
  also have "\<dots> = 17 * length (groupby_pair input_df)"
    by (simp add: sum_list_triv)
  finally show ?thesis
    by (simp add: groupby_pair_def)
qed

text \<open>
  C4. Each pair of identifiers gets seventeen rows, three for each of the day indices 0 to 4
  with the factors 0.8, 1.2, 0.8 and one for each of the indices 5 and 6 with the factor
  0.7. The day index counts from the day of the call, not from Monday: called on Tuesday
  2026-11-03 (ordinal 739923) with the single row (1, 2, 10), the three windows fall on
  Tuesday to Saturday, and the whole-day rows with the factor 0.7 on Sunday and Monday. The
  names \<^verbatim>\<open>weekday_discounts\<close> and \<^verbatim>\<open>weekend_discount\<close> and the test \<^verbatim>\<open>day < 5\<close> show that
  index 0 was meant to be Monday, as the claim says.
\<close>

theorem toll_windows_on_a_tuesday:
  "map (\<lambda>r. (start_day r, start_time r, distance r))
     (calculate_time_based_toll_rates 739923 [\<lparr>id_start = 1::int, id_end = 2, distance = 10\<rparr>])
   = [(''Tuesday'', time_hms 0 0 0, Some 8), (''Tuesday'', time_hms 10 0 0, Some 12),
      (''Tuesday'', time_hms 18 0 0, Some 8),
      (''Wednesday'', time_hms 0 0 0, Some 8), (''Wednesday'', time_hms 10 0 0, Some 12),
      (''Wednesday'', time_hms 18 0 0, Some 8),
      (''Thursday'', time_hms 0 0 0, Some 8), (''Thursday'', time_hms 10 0 0, Some 12),
      (''Thursday'', time_hms 18 0 0, Some 8),
      (''Friday'', time_hms 0 0 0, Some 8), (''Friday'', time_hms 10 0 0, Some 12),
      (''Friday'', time_hms 18 0 0, Some 8),
      (''Saturday'', time_hms 0 0 0, Some 8), (''Saturday'', time_hms 10 0 0, Some 12),
      (''Saturday'', time_hms 18 0 0, Some 8),
      (''Sunday'', time_hms 0 0 0, Some 7), (''Monday'', time_hms 0 0 0, Some 7)]"
  by code_simp

text \<open>
  C5. The same table gives different rows on Monday 2026-11-02 (ordinal 739922) and on
  Tuesday 2026-11-03 (ordinal 739923): the result of \<^verbatim>\<open>calculate_time_based_toll_rates\<close>
  depends on the date of the call, through \<^verbatim>\<open>datetime.today()\<close>.
\<close>

theorem toll_rows_depend_on_the_date:
  "calculate_time_based_toll_rates 739922 [\<lparr>id_start = 1::int, id_end = 2, distance = 10\<rparr>]
   \<noteq> calculate_time_based_toll_rates 739923 [\<lparr>id_start = 1::int, id_end = 2, distance = 10\<rparr>]"
proof
  assume "calculate_time_based_toll_rates 739922 [\<lparr>id_start = 1::int, id_end = 2, distance = 10\<rparr>]
   = calculate_time_based_toll_rates 739923 [\<lparr>id_start = 1::int, id_end = 2, distance = 10\<rparr>]"
  then have "map start_day
      (calculate_time_based_toll_rates 739922 [\<lparr>id_start = 1::int, id_end = 2, distance = 10\<rparr>])
    = map start_day
      (calculate_time_based_toll_rates 739923 [\<lparr>id_start = 1::int, id_end = 2, distance = 10\<rparr>])"
    by simp
  then show False
    by code_simp
qed

lemma toll_windows_on_a_monday:
  "map (\<lambda>r. (start_day r, distance r))
     (calculate_time_based_toll_rates 739922 [\<lparr>id_start = 1::int, id_end = 2, distance = 10\<rparr>])
   = [(''Monday'', Some 8), (''Monday'', Some 12), (''Monday'', Some 8),
      (''Tuesday'', Some 8), (''Tuesday'', Some 12), (''Tuesday'', Some 8),
      (''Wednesday'', Some 8), (''Wednesday'', Some 12), (''Wednesday'', Some 8),
      (''Thursday'', Some 8), (''Thursday'', Some 12), (''Thursday'', Some 8),
      (''Friday'', Some 8), (''Friday'', Some 12), (''Friday'', Some 8),
      (''Saturday'', Some 7), (''Sunday'', Some 7)]"
  by code_simp



section \<open>generate_car_matrix: labels, diagonal and missing combinations\<close>

lemma index_at_set: "a \<in> set (index m) \<Longrightarrow> index (at_set m a b v) = index m"
  by (simp add: at_set_def)

lemma columns_at_set:
  "columns (at_set m a b v) = (if b \<in> set (columns m) then columns m else columns m @ [b])"
  by (simp add: at_set_def)

lemma cell_at_set:
  "cell (at_set m a b v) x y =
     (if x = a \<and> y = b then Some v
      else if x \<in> set (index m) \<and> y \<in> set (columns m) then cell m x y else None)"
  by (simp add: at_set_def)

lemma index_zero_loop:
  "set is \<subseteq> set (index m) \<Longrightarrow> index (fold (\<lambda>i cm. at_set cm i i v) is m) = index m"
  by (induction "is" arbitrary: m) (simp_all add: index_at_set)

lemma columns_zero_loop:
  "distinct is \<Longrightarrow> columns (fold (\<lambda>i cm. at_set cm i i v) is m)
     = columns m @ filter (\<lambda>i. i \<notin> set (columns m)) is"
proof (induction "is" arbitrary: m)
  case Nil
  show ?case by simp
next
  case (Cons i "is")
  have "filter (\<lambda>j. j \<notin> set (columns (at_set m i i v))) is
      = filter (\<lambda>j. j \<notin> set (columns m)) is"
    using Cons.prems by (intro filter_cong) (auto simp: columns_at_set)
  with Cons show ?case
    by (simp add: columns_at_set)
qed

lemma cell_zero_loop:
  assumes "set is \<subseteq> set (index m)" "x \<in> set (index m)" "y \<in> set (columns m) \<union> set is"
  shows "cell (fold (\<lambda>i cm. at_set cm i i v) is m) x y =
          (if x = y \<and> x \<in> set is then Some v
           else if y \<in> set (columns m) then cell m x y else None)"
  using assms
proof (induction "is" arbitrary: m)
  case Nil
  then show ?case by simp
next
  case (Cons i "is")
  let ?n = "at_set m i i v"
  have i: "i \<in> set (index m)"
    using Cons.prems(1) by simp
  have idx: "index ?n = index m"
    using i by (rule index_at_set)
  have cols: "set (columns ?n) = insert i (set (columns m))"
    by (auto simp: columns_at_set)
  have "cell (fold (\<lambda>i cm. at_set cm i i v) is ?n) x y =
          (if x = y \<and> x \<in> set is then Some v
           else if y \<in> set (columns ?n) then cell ?n x y else None)"
  proof (rule Cons.IH)
    show "set is \<subseteq> set (index ?n)" using Cons.prems(1) idx by simp
    show "x \<in> set (index ?n)" using Cons.prems(2) idx by simp
    show "y \<in> set (columns ?n) \<union> set is" using Cons.prems(3) cols by auto
  qed
  also have "\<dots> = (if x = y \<and> x \<in> set (i # is) then Some v
           else if y \<in> set (columns m) then cell m x y else None)"
    using Cons.prems(2) unfolding cols cell_at_set by auto
  finally show ?case by simp
qed

lemma find_distinct_key:
  assumes "distinct (map f df)" "r \<in> set df"
  shows "find (\<lambda>r'. f r' = f r) df = Some r"
  using assms by (induction df) (auto simp: image_iff)

lemma sort_remdups_cong:
  fixes xs ys :: "'a::linorder list"
  shows "set xs = set ys \<Longrightarrow> sort (remdups xs) = sort (remdups ys)"
  by (rule sorted_distinct_set_unique) simp_all

lemma generate_car_matrix_Inr:
  fixes df :: "('k::linorder, real option) car_row list"
  assumes "distinct (map (\<lambda>r. (id_1 r, id_2 r)) df)"
  shows "\<exists>m. generate_car_matrix df = Inr m \<and>
     index m = sort (remdups (map id_1 df)) \<and>
     columns m = sort (remdups (map id_2 df)) @
        filter (\<lambda>i. i \<notin> set (map id_2 df)) (sort (remdups (map id_1 df))) \<and>
     (\<forall>x y. x \<in> set (map id_1 df) \<longrightarrow> y \<in> set (map id_2 df) \<union> set (map id_1 df) \<longrightarrow>
        cell m x y = (if x = y then Some 0
                      else if y \<in> set (map id_2 df) then filled df x y else None))"
proof -
  let ?p = "\<lparr>index = sort (remdups (map id_1 df)), columns = sort (remdups (map id_2 df)),
      cell = (\<lambda>a b. case find (\<lambda>r. id_1 r = a \<and> id_2 r = b) df of
                                None \<Rightarrow> None | Some r \<Rightarrow> car r)\<rparr>"
  let ?f = "fillna 0 ?p"
  let ?g = "fold (\<lambda>i cm. at_set cm i i 0) (index ?f) ?f"
  have i0: "index ?f = sort (remdups (map id_1 df))"
    and c0: "columns ?f = sort (remdups (map id_2 df))"
    and v0: "\<And>x y. cell ?f x y = filled df x y"
    by (simp_all add: fillna_def filled_def split: option.splits)
  have g: "generate_car_matrix df = Inr ?g"
    using assms by (simp add: generate_car_matrix_def pivot_def Let_def)
  have a: "index ?g = sort (remdups (map id_1 df))"
    using index_zero_loop [of "index ?f" ?f 0] i0 by simp
  have "columns ?g = columns ?f @ filter (\<lambda>i. i \<notin> set (columns ?f)) (index ?f)"
    by (rule columns_zero_loop) (simp add: i0)
  then have b: "columns ?g = sort (remdups (map id_2 df)) @
        filter (\<lambda>i. i \<notin> set (map id_2 df)) (sort (remdups (map id_1 df)))"
    unfolding i0 c0 by simp
  have c: "cell ?g x y = (if x = y then Some 0
                      else if y \<in> set (map id_2 df) then filled df x y else None)"
    if "x \<in> set (map id_1 df)" "y \<in> set (map id_2 df) \<union> set (map id_1 df)" for x y
  proof -
    have "cell ?g x y = (if x = y \<and> x \<in> set (index ?f) then Some 0
           else if y \<in> set (columns ?f) then cell ?f x y else None)"
      by (rule cell_zero_loop) (use that in \<open>simp_all add: i0 c0\<close>)
    then show ?thesis
      using that(1) unfolding v0 i0 c0 by simp
  qed
  show ?thesis
    using g a b c by blast
qed

lemma filled_absent:
  "(a, b) \<notin> set (map (\<lambda>r. (id_1 r, id_2 r)) df) \<Longrightarrow> filled df a b = Some 0"
proof -
  assume "(a, b) \<notin> set (map (\<lambda>r. (id_1 r, id_2 r)) df)"
  then have "find (\<lambda>r. id_1 r = a \<and> id_2 r = b) df = None"
    by (auto simp: find_None_iff)
  then show ?thesis by (simp add: filled_def)
qed

text \<open>
  C3 (as amended). For a table in which no pair \<open>(id_1, id_2)\<close> occurs twice and whose
  \<^verbatim>\<open>id_1\<close> values and \<^verbatim>\<open>id_2\<close> values are the same set, \<^verbatim>\<open>generate_car_matrix\<close> returns a
  square matrix: its row labels and its column labels are the same sorted list of the
  distinct identifiers, every diagonal cell is 0, and every cell of a pair that is not in
  the table is 0.
\<close>

theorem generate_car_matrix_square:
  fixes df :: "('k::linorder, real option) car_row list"
  assumes "distinct (map (\<lambda>r. (id_1 r, id_2 r)) df)"
    and "set (map id_1 df) = set (map id_2 df)"
  shows "\<exists>m. generate_car_matrix df = Inr m \<and>
     length (index m) = length (columns m) \<and> columns m = index m \<and>
     sorted (index m) \<and> distinct (index m) \<and>
     set (index m) = set (map id_1 df) \<union> set (map id_2 df) \<and>
     (\<forall>a \<in> set (index m). at_get m a a = Inr (Some 0)) \<and>
     (\<forall>a \<in> set (index m). \<forall>b \<in> set (columns m).
        (a, b) \<notin> set (map (\<lambda>r. (id_1 r, id_2 r)) df) \<longrightarrow> at_get m a b = Inr (Some 0))"
proof -
  obtain m where g: "generate_car_matrix df = Inr m"
    and i: "index m = sort (remdups (map id_1 df))"
    and c: "columns m = sort (remdups (map id_2 df)) @
        filter (\<lambda>i. i \<notin> set (map id_2 df)) (sort (remdups (map id_1 df)))"
    and v: "\<And>x y. x \<in> set (map id_1 df) \<Longrightarrow> y \<in> set (map id_2 df) \<union> set (map id_1 df) \<Longrightarrow>
        cell m x y = (if x = y then Some 0
                      else if y \<in> set (map id_2 df) then filled df x y else None)"
    using generate_car_matrix_Inr [OF assms(1)] by blast
  have "filter (\<lambda>i. i \<notin> set (map id_2 df)) (sort (remdups (map id_1 df))) = []"
    using assms(2) by (simp add: filter_empty_conv)
  then have c': "columns m = index m"
    unfolding c i using sort_remdups_cong [OF assms(2)] by simp
  have s: "set (index m) = set (map id_1 df)"
    unfolding i by simp
  have d: "at_get m a a = Inr (Some 0)" if "a \<in> set (index m)" for a
    using that v [of a a] by (simp add: at_get_def c' s)
  have e: "at_get m a b = Inr (Some 0)"
    if "a \<in> set (index m)" "b \<in> set (columns m)"
      "(a, b) \<notin> set (map (\<lambda>r. (id_1 r, id_2 r)) df)" for a b
  proof -
    have "cell m a b = (if a = b then Some 0 else filled df a b)"
      using that(1,2) v [of a b] assms(2) unfolding c' s by simp
    then show ?thesis
      using that filled_absent [OF that(3)] by (simp add: at_get_def)
  qed
  have "sorted (index m)" "distinct (index m)"
    unfolding i by simp_all
  with g c' s d e assms(2) show ?thesis
    by auto
qed

theorem generate_car_matrix_square_witness:
  "distinct (map (\<lambda>r. (id_1 r, id_2 r))
      [\<lparr>id_1 = 1::int, id_2 = 2, car = Some (5::real)\<rparr>, \<lparr>id_1 = 2, id_2 = 1, car = Some 6\<rparr>]) \<and>
   set (map id_1 [\<lparr>id_1 = 1::int, id_2 = 2, car = Some (5::real)\<rparr>, \<lparr>id_1 = 2, id_2 = 1, car = Some 6\<rparr>])
     = set (map id_2 [\<lparr>id_1 = 1::int, id_2 = 2, car = Some (5::real)\<rparr>, \<lparr>id_1 = 2, id_2 = 1, car = Some 6\<rparr>]) \<and>
   (\<exists>m. generate_car_matrix
          [\<lparr>id_1 = 1::int, id_2 = 2, car = Some 5\<rparr>, \<lparr>id_1 = 2, id_2 = 1, car = Some 6\<rparr>] = Inr m \<and>
        index m = [1, 2] \<and> columns m = [1, 2] \<and>
        at_get m 1 1 = Inr (Some 0) \<and> at_get m 2 2 = Inr (Some 0))"
proof -
  let ?df = "[\<lparr>id_1 = 1::int, id_2 = 2, car = Some (5::real)\<rparr>, \<lparr>id_1 = 2, id_2 = 1, car = Some 6\<rparr>]"
  have h: "distinct (map (\<lambda>r. (id_1 r, id_2 r)) ?df)" "set (map id_1 ?df) = set (map id_2 ?df)"
    by auto
  obtain m where m: "generate_car_matrix ?df = Inr m" "columns m = index m"
    "\<forall>a \<in> set (index m). at_get m a a = Inr (Some 0)"
    using generate_car_matrix_square [OF h] by blast
  have "map_sum id index (generate_car_matrix ?df) = Inr [1, 2]"
    by code_simp
  then have "index m = [1, 2]"
    unfolding m(1) by simp
  with m h show ?thesis by auto
qed

text \<open>
  C3 as stated fails: the rows are labelled by the \<^verbatim>\<open>id_1\<close> values and the columns by the
  \<^verbatim>\<open>id_2\<close> values, and the loop of lines 18 and 19 appends a column for every row label
  that is no column label. The single row \<open>(1, 2, 5)\<close> gives a matrix of one row, 1, and
  two columns, 2 and 1.
\<close>

theorem generate_car_matrix_not_square:
  "map_sum id axes (generate_car_matrix [\<lparr>id_1 = 1::int, id_2 = 2, car = Some 5\<rparr>])
     = Inr ([1], [2, 1])"
  by code_simp

section \<open>unroll_distance_matrix: one row for each ordered pair, and the round trip\<close>

lemma lookup_pairs_Inr_iff:
  "lookup_pairs m ps = Inr u \<longleftrightarrow>
     (\<forall>(s, e) \<in> set ps. s \<in> set (index m) \<and> e \<in> set (columns m)) \<and>
     u = map (\<lambda>(s, e). \<lparr>id_start = s, id_end = e, distance = cell m s e\<rparr>) ps"
proof (induction ps arbitrary: u)
  case Nil
  show ?case by auto
next
  case (Cons p ps)
  obtain s e where p: "p = (s, e)" by (cases p)
  show ?case
    unfolding p using Cons [of "tl u"]
    by (cases u) (auto simp: at_get_def split: sum.splits)
qed

lemma set_pairs: "set (pairs m) = {(s, e). s \<in> set (index m) \<and> e \<in> set (index m) \<and> s \<noteq> e}"
  by (auto simp: pairs_def)

lemma distinct_pairs: "distinct (index m) \<Longrightarrow> distinct (pairs m)"
  by (simp add: pairs_def distinct_product)

lemma pair_key_unrolled:
  "map pair_key (map (\<lambda>(s, e). \<lparr>id_start = s, id_end = e, distance = f s e\<rparr>) ps) = ps"
  by (induction ps) (auto simp: pair_key_def)

lemma unroll_distance_matrix_Inr:
  assumes "unroll_distance_matrix m = Inr u"
  shows "u = map (\<lambda>(s, e). \<lparr>id_start = s, id_end = e, distance = cell m s e\<rparr>) (pairs m)"
    and "set (index m) \<subseteq> set (columns m)" and "pairs m \<noteq> []"
proof -
  have p: "pairs m \<noteq> []" and l: "lookup_pairs m (pairs m) = Inr u"
    using assms by (auto simp: unroll_distance_matrix_def split: if_splits)
  show "pairs m \<noteq> []" by (rule p)
  show "u = map (\<lambda>(s, e). \<lparr>id_start = s, id_end = e, distance = cell m s e\<rparr>) (pairs m)"
    using l by (simp add: lookup_pairs_Inr_iff)
  have c: "\<And>s e. (s, e) \<in> set (pairs m) \<Longrightarrow> e \<in> set (columns m)"
    using l unfolding lookup_pairs_Inr_iff by blast
  obtain a b where ab: "a \<in> set (index m)" "b \<in> set (index m)" "a \<noteq> b"
    using p by (cases "pairs m") (use set_pairs [of m] in auto)
  show "set (index m) \<subseteq> set (columns m)"
  proof
    fix x assume x: "x \<in> set (index m)"
    have "(a, x) \<in> set (pairs m) \<or> (b, x) \<in> set (pairs m)"
      using ab x by (auto simp: set_pairs)
    then show "x \<in> set (columns m)" using c by blast
  qed
qed

lemma unroll_distance_matrix_eq:
  assumes "set (index m) \<subseteq> set (columns m)" "pairs m \<noteq> []"
  shows "unroll_distance_matrix m =
     Inr (map (\<lambda>(s, e). \<lparr>id_start = s, id_end = e, distance = cell m s e\<rparr>) (pairs m))"
proof -
  have "\<forall>(s, e) \<in> set (pairs m). s \<in> set (index m) \<and> e \<in> set (columns m)"
    using assms(1) by (auto simp: set_pairs)
  then have "lookup_pairs m (pairs m) =
     Inr (map (\<lambda>(s, e). \<lparr>id_start = s, id_end = e, distance = cell m s e\<rparr>) (pairs m))"
    by (simp add: lookup_pairs_Inr_iff)
  then show ?thesis
    using assms(2) by (simp add: unroll_distance_matrix_def)
qed

lemma unrolled_rows:
  assumes "distinct (index m)" "unroll_distance_matrix m = Inr u"
  shows "distinct (map pair_key u) \<and>
     set (map pair_key u) = {(i, j). i \<in> set (index m) \<and> j \<in> set (index m) \<and> i \<noteq> j} \<and>
     (\<forall>r \<in> set u. at_get m (id_start r) (id_end r) = Inr (distance r))"
proof -
  note u = unroll_distance_matrix_Inr [OF assms(2)]
  have k: "map pair_key u = pairs m"
    unfolding u(1) by (rule pair_key_unrolled)
  have "at_get m (id_start r) (id_end r) = Inr (distance r)" if "r \<in> set u" for r
  proof -
    have "r \<in> (\<lambda>(s, e). \<lparr>id_start = s, id_end = e, distance = cell m s e\<rparr>) ` set (pairs m)"
      using that u(1) by simp
    then obtain s e where "(s, e) \<in> set (pairs m)"
      and r: "r = \<lparr>id_start = s, id_end = e, distance = cell m s e\<rparr>"
      by auto
    then show ?thesis
      using u(2) by (auto simp: set_pairs at_get_def)
  qed
  then show ?thesis
    unfolding k using distinct_pairs [OF assms(1)] set_pairs [of m] by blast
qed

lemma as_car_rows_unrolled:
  "as_car_rows (map (\<lambda>(s, e). \<lparr>id_start = s, id_end = e, distance = f s e\<rparr>) ps)
     = map (\<lambda>(s, e). \<lparr>id_1 = s, id_2 = e, car = f s e\<rparr>) ps"
  by (simp add: as_car_rows_def case_prod_unfold)

lemma keys_car_rows:
  "map (\<lambda>r. (id_1 r, id_2 r)) (map (\<lambda>(s, e). \<lparr>id_1 = s, id_2 = e, car = f s e\<rparr>) ps) = ps"
  by (induction ps) auto

lemma filled_present:
  assumes "distinct (map (\<lambda>r. (id_1 r, id_2 r)) df)" "r \<in> set df" "car r = Some c"
  shows "filled df (id_1 r) (id_2 r) = Some c"
proof -
  have "find (\<lambda>r'. (id_1 r', id_2 r') = (id_1 r, id_2 r)) df = Some r"
    using assms(1,2) by (rule find_distinct_key)
  then show ?thesis
    using assms(3) by (simp add: filled_def)
qed

text \<open>
  C6 (as amended). Take a table in which no pair \<open>(id_1, id_2)\<close> occurs twice and every
  \<^verbatim>\<open>id_2\<close> value is also an \<^verbatim>\<open>id_1\<close> value. Unrolling the matrix built from it and building
  a matrix from the unrolled table (its columns renamed to \<^verbatim>\<open>id_1\<close>, \<^verbatim>\<open>id_2\<close>, \<^verbatim>\<open>car\<close>)
  gives back, at every pair of the table off the diagonal, the value that the table has
  there. Whenever the unrolling returns, the unrolled table has exactly one row for each
  ordered pair of distinct row labels of the matrix, holding the cell of that pair.
\<close>

theorem unroll_round_trip:
  fixes df :: "('k::linorder, real option) car_row list"
  assumes "distinct (map (\<lambda>r. (id_1 r, id_2 r)) df)"
    and "set (map id_2 df) \<subseteq> set (map id_1 df)"
  shows "(\<forall>r \<in> set df. \<forall>c. id_1 r \<noteq> id_2 r \<and> car r = Some c \<longrightarrow>
          (\<exists>m'. round_trip df = Inr m' \<and> at_get m' (id_1 r) (id_2 r) = Inr (Some c))) \<and>
         (\<forall>m u. generate_car_matrix df = Inr m \<and> unroll_distance_matrix m = Inr u \<longrightarrow>
            distinct (map pair_key u) \<and>
            set (map pair_key u) = {(i, j). i \<in> set (index m) \<and> j \<in> set (index m) \<and> i \<noteq> j} \<and>
            (\<forall>r \<in> set u. at_get m (id_start r) (id_end r) = Inr (distance r)))"
proof -
  obtain m where g: "generate_car_matrix df = Inr m"
    and i: "index m = sort (remdups (map id_1 df))"
    and c: "columns m = sort (remdups (map id_2 df)) @
        filter (\<lambda>i. i \<notin> set (map id_2 df)) (sort (remdups (map id_1 df)))"
    and v: "\<And>x y. x \<in> set (map id_1 df) \<Longrightarrow> y \<in> set (map id_2 df) \<union> set (map id_1 df) \<Longrightarrow>
        cell m x y = (if x = y then Some 0
                      else if y \<in> set (map id_2 df) then filled df x y else None)"
    using generate_car_matrix_Inr [OF assms(1)] by blast
  have si: "set (index m) = set (map id_1 df)"
    unfolding i by simp
  have di: "distinct (index m)"
    unfolding i by simp
  have sc: "set (index m) \<subseteq> set (columns m)"
    unfolding i c by auto
  have second: "distinct (map pair_key u) \<and>
            set (map pair_key u) = {(i, j). i \<in> set (index m') \<and> j \<in> set (index m') \<and> i \<noteq> j} \<and>
            (\<forall>r \<in> set u. at_get m' (id_start r) (id_end r) = Inr (distance r))"
    if "generate_car_matrix df = Inr m'" "unroll_distance_matrix m' = Inr u" for m' u
  proof -
    have "m' = m" using that(1) g by simp
    then show ?thesis using unrolled_rows [OF di] that(2) by simp
  qed
  have first: "\<exists>m'. round_trip df = Inr m' \<and> at_get m' (id_1 r) (id_2 r) = Inr (Some c)"
    if r: "r \<in> set df" "id_1 r \<noteq> id_2 r" "car r = Some c" for r c
  proof -
    let ?a = "id_1 r" and ?b = "id_2 r"
    let ?u = "map (\<lambda>(s, e). \<lparr>id_start = s, id_end = e, distance = cell m s e\<rparr>) (pairs m)"
    let ?t = "map (\<lambda>(s, e). \<lparr>id_1 = s, id_2 = e, car = cell m s e\<rparr>) (pairs m)"
    have a: "?a \<in> set (index m)" and b: "?b \<in> set (index m)"
      using r(1) assms(2) unfolding si by auto
    have ab: "(?a, ?b) \<in> set (pairs m)"
      using a b r(2) by (simp add: set_pairs)
    then have ne: "pairs m \<noteq> []" by auto
    have u: "unroll_distance_matrix m = Inr ?u"
      using sc ne by (rule unroll_distance_matrix_eq)
    have t: "as_car_rows ?u = ?t"
      by (rule as_car_rows_unrolled)
    have kt: "map (\<lambda>r. (id_1 r, id_2 r)) ?t = pairs m"
      by (rule keys_car_rows)
    have dt: "distinct (map (\<lambda>r. (id_1 r, id_2 r)) ?t)"
      unfolding kt using di by (rule distinct_pairs)
    obtain m' where g': "generate_car_matrix ?t = Inr m'"
      and i': "index m' = sort (remdups (map id_1 ?t))"
      and c': "columns m' = sort (remdups (map id_2 ?t)) @
        filter (\<lambda>i. i \<notin> set (map id_2 ?t)) (sort (remdups (map id_1 ?t)))"
      and v': "\<And>x y. x \<in> set (map id_1 ?t) \<Longrightarrow> y \<in> set (map id_2 ?t) \<union> set (map id_1 ?t) \<Longrightarrow>
        cell m' x y = (if x = y then Some 0
                      else if y \<in> set (map id_2 ?t) then filled ?t x y else None)"
      using generate_car_matrix_Inr [OF dt] by blast
    have mt: "map id_1 ?t = map fst (pairs m)" "map id_2 ?t = map snd (pairs m)"
      by (simp_all add: case_prod_unfold)
    have "?a \<in> fst ` set (pairs m)" "?b \<in> snd ` set (pairs m)"
      using ab by force+
    then have a1: "?a \<in> set (map id_1 ?t)" and b2: "?b \<in> set (map id_2 ?t)"
      unfolding mt by simp_all
    have rt: "\<lparr>id_1 = ?a, id_2 = ?b, car = cell m ?a ?b\<rparr> \<in> set ?t"
      using ab by force
    have "cell m ?a ?b = filled df ?a ?b"
      using v [of ?a ?b] r(1,2) by auto
    also have "\<dots> = Some c"
      using assms(1) r(1,3) by (rule filled_present)
    finally have cm: "cell m ?a ?b = Some c" .
    have "filled ?t ?a ?b = Some c"
      using filled_present [OF dt rt] cm by simp
    then have "cell m' ?a ?b = Some c"
      using v' [OF a1] b2 r(2) by simp
    moreover have "?a \<in> set (index m')" "?b \<in> set (columns m')"
      using a1 b2 unfolding i' c' by simp_all
    ultimately have "at_get m' ?a ?b = Inr (Some c)"
      by (simp add: at_get_def)
    moreover have "round_trip df = Inr m'"
      by (simp add: round_trip_def g u t g')
    ultimately show ?thesis by blast
  qed
  show ?thesis
    using first second by blast
qed

theorem unroll_round_trip_witness:
  "distinct (map (\<lambda>r. (id_1 r, id_2 r))
      [\<lparr>id_1 = 1::int, id_2 = 2, car = Some (5::real)\<rparr>, \<lparr>id_1 = 2, id_2 = 1, car = Some 6\<rparr>,
       \<lparr>id_1 = 3, id_2 = 1, car = Some 7\<rparr>]) \<and>
   set (map id_2 [\<lparr>id_1 = 1::int, id_2 = 2, car = Some (5::real)\<rparr>,
       \<lparr>id_1 = 2, id_2 = 1, car = Some 6\<rparr>, \<lparr>id_1 = 3, id_2 = 1, car = Some 7\<rparr>])
     \<subseteq> set (map id_1 [\<lparr>id_1 = 1::int, id_2 = 2, car = Some (5::real)\<rparr>,
       \<lparr>id_1 = 2, id_2 = 1, car = Some 6\<rparr>, \<lparr>id_1 = 3, id_2 = 1, car = Some 7\<rparr>]) \<and>
   (\<exists>m'. round_trip [\<lparr>id_1 = 1::int, id_2 = 2, car = Some 5\<rparr>,
       \<lparr>id_1 = 2, id_2 = 1, car = Some 6\<rparr>, \<lparr>id_1 = 3, id_2 = 1, car = Some 7\<rparr>] = Inr m' \<and>
      at_get m' 1 2 = Inr (Some 5) \<and> at_get m' 3 1 = Inr (Some 7))"
proof -
  let ?df = "[\<lparr>id_1 = 1::int, id_2 = 2, car = Some (5::real)\<rparr>,
       \<lparr>id_1 = 2, id_2 = 1, car = Some 6\<rparr>, \<lparr>id_1 = 3, id_2 = 1, car = Some 7\<rparr>]"
  have h: "distinct (map (\<lambda>r. (id_1 r, id_2 r)) ?df)" "set (map id_2 ?df) \<subseteq> set (map id_1 ?df)"
    by auto
  have t: "\<forall>r \<in> set ?df. \<forall>c. id_1 r \<noteq> id_2 r \<and> car r = Some c \<longrightarrow>
          (\<exists>m'. round_trip ?df = Inr m' \<and> at_get m' (id_1 r) (id_2 r) = Inr (Some c))"
    using unroll_round_trip [OF h] by blast
  obtain m' where a: "round_trip ?df = Inr m'" "at_get m' 1 2 = Inr (Some 5)"
    using t by force
  obtain m'' where b: "round_trip ?df = Inr m''" "at_get m'' 3 1 = Inr (Some 7)"
    using t by force
  have "m'' = m'" using a(1) b(1) by simp
  with a b h show ?thesis by blast
qed

text \<open>
  C6 as stated fails: the unrolled table ranges over the row labels only. For the rows
  \<open>(1, 2, 5)\<close> and \<open>(3, 2, 6)\<close> the matrix has the rows 1 and 3, the unrolled table has the
  pairs \<open>(1, 3)\<close> and \<open>(3, 1)\<close>, and the matrix built from it has no column 2: the values 5
  and 6 are gone.
\<close>

theorem round_trip_drops_a_column:
  "map_sum id cells (round_trip [\<lparr>id_1 = 1::int, id_2 = 2, car = Some 5\<rparr>,
       \<lparr>id_1 = 3, id_2 = 2, car = Some 6\<rparr>])
     = Inr [((1, 1), Some 0), ((1, 3), Some 0), ((3, 1), Some 0), ((3, 3), Some 0)]"
  by code_simp

section \<open>calculate_distance_matrix: the passes of Floyd and Warshall\<close>

lemma dist_zero_le_Fin [simp]: "0 \<le> Fin x \<longleftrightarrow> 0 \<le> x"
  by (simp add: zero_dist_def)

lemma dist_zero_le_PInf [simp]: "(0::dist) \<le> PInf"
  by simp

lemma dist_le_PInf [simp]: "(d::dist) \<le> PInf"
  by (cases d) simp_all

lemma dist_add_nonneg: "(0::dist) \<le> a \<Longrightarrow> 0 \<le> b \<Longrightarrow> 0 \<le> a + b"
  using add_mono [of 0 a 0 b] by simp

lemma dist_le_add_right: "(0::dist) \<le> b \<Longrightarrow> a \<le> a + b"
  using add_left_mono [of 0 b a] by simp

lemma dist_le_add_left: "(0::dist) \<le> b \<Longrightarrow> a \<le> b + a"
  using dist_le_add_right [of b a] by (simp add: add.commute)

lemma walk_weight_nonneg:
  assumes "\<And>x y. 0 \<le> w x y"
  shows "0 \<le> walk_weight w xs"
  by (induction xs rule: induct_list012) (simp_all add: assms dist_add_nonneg)
























lemma walk_weight_single: "walk_weight w [a, b] = w a b"
  by simp



section \<open>calculate_distance_matrix: the graph of the table and its shortest paths\<close>




























end
